theory Spec2Isabelle
  imports Complex_Main "HOL-Library.Sublist"
begin

section \<open>The notebook's conversation code (SemanticKernel/sk-main.ipynb)\<close>

text \<open>
  The notebook keeps one module-level \<^verbatim>\<open>history = ChatHistory()\<close> and defines
  \<^verbatim>\<open>
  async def chat_with_assistant(user_input: str):
      history.add_user_message(user_input)
      print("User >", user_input)
      result = await chat_completion.get_chat_message_content(
          chat_history=history, settings=execution_settings, kernel=kernel)
      print("Assistant >", result)
      history.add_message(result)
  \<close>
  A chat message is a role with a text; \<^verbatim>\<open>str(result)\<close> is the text. The chat history
  is the list of its messages, oldest first.
\<close>

datatype role = System | User | Assistant | Tool

record message =
  role :: role
  content :: string

text \<open>
  What an \<^verbatim>\<open>await\<close> can raise: cancellation of the task surfaces as
  \<^verbatim>\<open>CancelledError\<close> at the suspension point, any failure of the service as another
  exception. \<^verbatim>\<open>KeyError\<close> is what \<^verbatim>\<open>del d[k]\<close> raises on a missing key.
\<close>

datatype exn = CancelledError | ServiceError string | KeyError

text \<open>
  The module-level state the function works on: the shared history, the kernel with
  its plugin objects (opaque here, of type \<open>'k\<close>) and what has been printed.
\<close>

record 'k session =
  history :: "message list"
  kernel :: 'k
  stdout :: "string list"

text \<open>
  The completion service is a collaborator of the notebook and a parameter of the model.
  It receives the history and the kernel by reference, so it may leave both changed,
  also when it raises: it returns its outcome together with the history and the kernel
  as it left them.
\<close>

type_synonym 'k completion =
  "message list \<Rightarrow> 'k \<Rightarrow> (exn + message) \<times> message list \<times> 'k"

definition add_user_message :: "message list \<Rightarrow> string \<Rightarrow> message list" where
  "add_user_message h user_input = h @ [\<lparr>role = User, content = user_input\<rparr>]"

definition add_message :: "message list \<Rightarrow> message \<Rightarrow> message list" where
  "add_message h m = h @ [m]"

text \<open>\<^verbatim>\<open>print(a, b)\<close> writes one line: the two texts with a blank between them.\<close>

definition print2 :: "string \<Rightarrow> string \<Rightarrow> string list \<Rightarrow> string list" where
  "print2 a b out = out @ [a @ '' '' @ b]"

text \<open>
  The function has no \<^verbatim>\<open>return\<close> statement: when it completes, its value is Python's
  \<^verbatim>\<open>None\<close>, written \<open>None\<close> here, where \<open>Some m\<close> would be a returned message.
  An exception of the awaited call leaves the function at the \<^verbatim>\<open>await\<close>: there is no
  \<^verbatim>\<open>try\<close> around it.
\<close>

definition chat_with_assistant ::
  "'k completion \<Rightarrow> string \<Rightarrow> 'k session \<Rightarrow> (exn + message option) \<times> 'k session" where
  "chat_with_assistant get_chat_message_content user_input s =
     (let s1 = s\<lparr>history := add_user_message (history s) user_input\<rparr>;
          s2 = s1\<lparr>stdout := print2 ''User >'' user_input (stdout s1)\<rparr>
      in case get_chat_message_content (history s2) (kernel s2) of
           (Inl e, h, k) \<Rightarrow> (Inl e, s2\<lparr>history := h, kernel := k\<rparr>)
         | (Inr result, h, k) \<Rightarrow>
             (let s3 = s2\<lparr>history := h, kernel := k\<rparr>;
                  s4 = s3\<lparr>stdout := print2 ''Assistant >'' (content result) (stdout s3)\<rparr>;
                  s5 = s4\<lparr>history := add_message (history s4) result\<rparr>
              in (Inr None, s5)))"

text \<open>
  A notebook cell awaits several calls one after the other
  (\<^verbatim>\<open>await chat_with_assistant(...)\<close> three times in the first test cell); an
  exception ends the cell. The state is the module's, so each call starts from what the
  last one left.
\<close>

fun chat_session ::
  "'k completion \<Rightarrow> string list \<Rightarrow> 'k session \<Rightarrow> (exn + unit) \<times> 'k session" where
  "chat_session c [] s = (Inr (), s)"
| "chat_session c (u # us) s =
     (case chat_with_assistant c u s of
        (Inl e, s') \<Rightarrow> (Inl e, s')
      | (Inr _, s') \<Rightarrow> chat_session c us s')"

text \<open>Collaborators and a start state for concrete runs.\<close>

definition fresh :: "nat session" where
  "fresh = \<lparr>history = [], kernel = 0, stdout = []\<rparr>"

definition answering :: "nat completion" where
  "answering h k = (Inr \<lparr>role = Assistant, content = ''ok''\<rparr>, h, Suc k)"

definition cancelled :: "nat completion" where
  "cancelled h k = (Inl CancelledError, h, k)"

text \<open>
  A completion service that is cancelled after it has dispatched a function call and
  appended the result of the function to the history it was handed.
\<close>

definition interrupted :: "nat completion" where
  "interrupted h k =
     (Inl CancelledError, h @ [\<lparr>role = Tool, content = ''Table Lamp: on''\<rparr>], Suc k)"

section \<open>The kernel's plugin collection\<close>

text \<open>
  \<^verbatim>\<open>kernel.plugins\<close> is a Python dictionary from a plugin name (the namespace) to a
  plugin, and a plugin holds its functions by name; the notebook reads \<^verbatim>\<open>func.name\<close>
  and \<^verbatim>\<open>func.description\<close> of each. A Python dictionary keeps its keys in insertion
  order, so it is an association list here, with the three operations the notebook and
  the registry use: \<^verbatim>\<open>k in d\<close>, \<^verbatim>\<open>del d[k]\<close> (which raises on a missing key) and
  \<^verbatim>\<open>d[k] = v\<close> (which keeps the place of a key already there and puts a new key
  last).
\<close>

text \<open>
  A function carries its name and description, as the notebook reads them, and the
  parameter schema of the specification's data model (3): an ordered list of (name,
  type, required), the types being string, number, boolean and enumerated list.
\<close>

datatype ptype = TString | TNumber | TBoolean | TEnum "string list"

datatype val = VString string | VNumber rat | VBoolean bool

record FunctionDescriptor =
  name :: string
  description :: string
  parameter_schema :: "(string \<times> ptype \<times> bool) list"

type_synonym arguments = "(string \<times> val) list"

text \<open>
  A callable works on the arguments and on the state of its plugin object (\<open>'st\<close>); it
  returns a result (\<open>'r\<close>) or raises (\<open>'x\<close>), and leaves a state.
\<close>

type_synonym ('x, 'r, 'st) impl = "arguments \<Rightarrow> 'st \<Rightarrow> ('x + 'r) \<times> 'st"

type_synonym ('x, 'r, 'st) plugin =
  "(string \<times> FunctionDescriptor \<times> ('x, 'r, 'st) impl) list"

type_synonym ('x, 'r, 'st) registry = "(string \<times> ('x, 'r, 'st) plugin) list"

definition contains :: "'k \<Rightarrow> ('k \<times> 'v) list \<Rightarrow> bool" where
  "contains k d = (k \<in> set (map fst d))"

definition del_item :: "'k \<Rightarrow> ('k \<times> 'v) list \<Rightarrow> exn + ('k \<times> 'v) list" where
  "del_item k d =
     (if contains k d then Inr (filter (\<lambda>(k', v). k' \<noteq> k) d) else Inl KeyError)"

fun set_item :: "'k \<Rightarrow> 'v \<Rightarrow> ('k \<times> 'v) list \<Rightarrow> ('k \<times> 'v) list" where
  "set_item k v [] = [(k, v)]"
| "set_item k v ((k', v') # d) =
     (if k' = k then (k, v) # d else (k', v') # set_item k v d)"

text \<open>
  The notebook removes a plugin before adding it again:
  \<^verbatim>\<open>
  if "KnowledgeBase" in kernel.plugins:
      del kernel.plugins["KnowledgeBase"]
  \<close>
  This is the registry's \<^verbatim>\<open>unregister\<close>, with the plugin name as its parameter.
\<close>

definition unregister ::
  "string \<Rightarrow> ('x, 'r, 'st) registry \<Rightarrow> exn + ('x, 'r, 'st) registry" where
  "unregister namespace plugins =
     (if contains namespace plugins then del_item namespace plugins else Inr plugins)"

text \<open>
  The notebook lists what is registered:
  \<^verbatim>\<open>
  for plugin_name, plugin in kernel.plugins.items():
      print(f"\n Plugin: {plugin_name}")
      for func in plugin:
          print(f"  {func.name}: {func.description}")
  \<close>
  The catalog is the sequence of functions these two loops visit, each with the name
  of its plugin.
\<close>

definition catalog :: "('x, 'r, 'st) registry \<Rightarrow> (string \<times> FunctionDescriptor) list" where
  "catalog plugins =
     concat (map (\<lambda>(plugin_name, plugin).
                    map (\<lambda>(_, func, _). (plugin_name, func)) plugin) plugins)"

text \<open>
  What a dictionary of dictionaries guarantees: no plugin name twice, no function name
  twice in a plugin, and every function stored under its own name.
\<close>

definition wf_plugin :: "('x, 'r, 'st) plugin \<Rightarrow> bool" where
  "wf_plugin p = (distinct (map fst p) \<and> list_all (\<lambda>(nm, d, impl). nm = name d) p)"

definition wf_registry :: "('x, 'r, 'st) registry \<Rightarrow> bool" where
  "wf_registry reg = (distinct (map fst reg) \<and> list_all (\<lambda>(ns, p). wf_plugin p) reg)"

section \<open>The function registry of the specification\<close>

text \<open>The error taxonomy of the specification (section 7).\<close>

datatype 'x error =
    DuplicateNameError
  | UnknownFunctionError
  | ArgumentValidationError
  | FunctionExecutionError 'x
  | RetrievalUnavailableError
  | MaxHopsExceededError
  | CompletionUnavailableError

text \<open>
  \<^verbatim>\<open>registry[namespace][nm]\<close>, with \<open>None\<close> where the namespace or the name is
  missing.
\<close>

definition lookup ::
  "('x, 'r, 'st) registry \<Rightarrow> string \<Rightarrow> string \<Rightarrow> (FunctionDescriptor \<times> ('x, 'r, 'st) impl) option" where
  "lookup reg namespace nm =
     (case map_of reg namespace of None \<Rightarrow> None | Some p \<Rightarrow> map_of p nm)"

text \<open>
  Modelled from the spec: \<^verbatim>\<open>register\<close>. The notebook registers through the vendor
  kernel's \<^verbatim>\<open>add_plugin\<close>, whose code is not part of the repository's sources. The
  specification (4.1): fails with DuplicateNameError if (namespace, descriptor.name)
  already exists; otherwise inserts and returns nothing. Inserting into the mapping from
  namespace to mapping from function name is
  \<^verbatim>\<open>registry.setdefault(namespace, {})[descriptor.name] = (descriptor, implementation)\<close>.
\<close>

definition register ::
  "string \<Rightarrow> FunctionDescriptor \<Rightarrow> ('x, 'r, 'st) impl \<Rightarrow> ('x, 'r, 'st) registry
     \<Rightarrow> ('x error + unit) \<times> ('x, 'r, 'st) registry" where
  "register namespace descriptor implementation reg =
     (if lookup reg namespace (name descriptor) \<noteq> None then (Inl DuplicateNameError, reg)
      else
        (let p = (case map_of reg namespace of None \<Rightarrow> [] | Some p \<Rightarrow> p)
         in (Inr (),
             set_item namespace
               (set_item (name descriptor) (descriptor, implementation) p) reg)))"

text \<open>
  Modelled from the spec: argument validation and \<^verbatim>\<open>invoke\<close>, which run inside the
  vendor kernel. The specification (3, 4.1): schema types are string, number, boolean
  and enumerated list; \<^verbatim>\<open>invoke\<close> validates the arguments against the descriptor's
  parameter schema (type and required-field checks), fails with UnknownFunctionError if
  the function is not found, with ArgumentValidationError on a schema mismatch, and
  otherwise calls the implementation and returns its result verbatim or fails with
  FunctionExecutionError wrapping the underlying failure.
\<close>

fun has_type :: "val \<Rightarrow> ptype \<Rightarrow> bool" where
  "has_type (VString s) TString = True"
| "has_type (VNumber n) TNumber = True"
| "has_type (VBoolean b) TBoolean = True"
| "has_type (VString s) (TEnum allowed) = (s \<in> set allowed)"
| "has_type _ _ = False"

definition valid_param :: "arguments \<Rightarrow> string \<times> ptype \<times> bool \<Rightarrow> bool" where
  "valid_param args = (\<lambda>(pname, ty, required).
     (case map_of args pname of None \<Rightarrow> \<not> required | Some v \<Rightarrow> has_type v ty))"

definition validate :: "(string \<times> ptype \<times> bool) list \<Rightarrow> arguments \<Rightarrow> bool" where
  "validate schema args = list_all (valid_param args) schema"

definition invoke ::
  "('x, 'r, 'st) registry \<Rightarrow> string \<Rightarrow> string \<Rightarrow> arguments \<Rightarrow> 'st \<Rightarrow> ('x error + 'r) \<times> 'st" where
  "invoke reg namespace nm args st =
     (case lookup reg namespace nm of
        None \<Rightarrow> (Inl UnknownFunctionError, st)
      | Some (descriptor, implementation) \<Rightarrow>
          if \<not> validate (parameter_schema descriptor) args
          then (Inl ArgumentValidationError, st)
          else (case implementation args st of
                  (Inl failure, st') \<Rightarrow> (Inl (FunctionExecutionError failure), st')
                | (Inr result, st') \<Rightarrow> (Inr result, st')))"

text \<open>
  Modelled from the spec: the lights plugin. The notebook imports it from
  Plugins/LightsPlugin.py, which is not among the sources. The specification's scenario
  (section 8) has \<^verbatim>\<open>get_lights()\<close> and \<^verbatim>\<open>change_state(id, on)\<close> over named lights;
  the names and descriptions are the ones the notebook prints. The descriptor and the
  stand-in implementation of \<^verbatim>\<open>search_docs\<close> serve as a function of a second
  namespace.
\<close>

type_synonym lights = "(string \<times> bool) list"

definition get_lights_descriptor :: FunctionDescriptor where
  "get_lights_descriptor =
     \<lparr>name = ''get_lights'', description = ''Gets a list of lights and their current state'',
      parameter_schema = []\<rparr>"

definition change_state_descriptor :: FunctionDescriptor where
  "change_state_descriptor =
     \<lparr>name = ''change_state'', description = ''Changes the state of the light'',
      parameter_schema = [(''id'', TString, True), (''on'', TBoolean, True)]\<rparr>"

definition search_docs_descriptor :: FunctionDescriptor where
  "search_docs_descriptor =
     \<lparr>name = ''search_docs'', description = ''Retrieve top 3 documents from the knowledge base'',
      parameter_schema = [(''query'', TString, True)]\<rparr>"

definition get_lights :: "(string, lights, lights) impl" where
  "get_lights args st = (Inr st, st)"

definition change_state :: "(string, lights, lights) impl" where
  "change_state args st =
     (case (map_of args ''id'', map_of args ''on'') of
        (Some (VString i), Some (VBoolean b)) \<Rightarrow>
          if contains i st
          then (let st' = map (\<lambda>(n, on). if n = i then (n, b) else (n, on)) st
                in (Inr st', st'))
          else (Inl ''no such light'', st)
      | _ \<Rightarrow> (Inl ''bad arguments'', st))"

definition search_docs :: "(string, lights, lights) impl" where
  "search_docs args st = (Inr [], st)"

definition lights_registry :: "(string, lights, lights) registry" where
  "lights_registry =
     snd (register ''Lights'' get_lights_descriptor get_lights
       (snd (register ''Lights'' change_state_descriptor change_state [])))"

text \<open>
  Three registrations, the second in another namespace than the first and the third.
\<close>

definition interleaved_registry :: "(string, lights, lights) registry" where
  "interleaved_registry =
     snd (register ''Lights'' get_lights_descriptor get_lights
       (snd (register ''KnowledgeBase'' search_docs_descriptor search_docs
         (snd (register ''Lights'' change_state_descriptor change_state [])))))"

section \<open>The context assembler of the specification\<close>

text \<open>
  Modelled from the spec: \<^verbatim>\<open>retrieve\<close>. The notebook reaches the search index through
  \<^verbatim>\<open>KnowledgeBasePlugin\<close> (Plugins/KnowledgeBasePlugin.py), which is not among the
  sources. The specification (3, 4.2, 6): the index-search collaborator consumes the
  query text and k and produces ranked documents with identifiers, excerpts and scores;
  \<^verbatim>\<open>retrieve\<close> fails with RetrievalUnavailableError if the collaborator is unreachable
  or returns an error; on success it returns fragments sorted by descending relevance
  score, ties in the collaborator's order (a stable sort), at most k of them, with rank
  1..k, each excerpt cut at a fixed maximum length. A score is a value of a linear
  order.
\<close>

type_synonym 's document = "string \<times> string \<times> 's"

type_synonym 's index_search = "string \<Rightarrow> nat \<Rightarrow> 's document list option"

record 's RetrievedFragment =
  source_identifier :: string
  rank :: nat
  excerpt :: string
  relevance_score :: 's

fun insert_by_score :: "('s::linorder) document \<Rightarrow> 's document list \<Rightarrow> 's document list" where
  "insert_by_score d [] = [d]"
| "insert_by_score d (e # es) =
     (if snd (snd e) \<le> snd (snd d) then d # e # es else e # insert_by_score d es)"

definition sort_by_score :: "('s::linorder) document list \<Rightarrow> 's document list" where
  "sort_by_score docs = foldr insert_by_score docs []"

fun fragments_from :: "nat \<Rightarrow> nat \<Rightarrow> 's document list \<Rightarrow> 's RetrievedFragment list" where
  "fragments_from max_excerpt r [] = []"
| "fragments_from max_excerpt r ((ident, text, sc) # docs) =
     \<lparr>source_identifier = ident, rank = r, excerpt = take max_excerpt text,
      relevance_score = sc\<rparr> # fragments_from max_excerpt (Suc r) docs"

definition retrieve ::
  "('s::linorder) index_search \<Rightarrow> nat \<Rightarrow> string \<Rightarrow> nat \<Rightarrow> 'x error + 's RetrievedFragment list" where
  "retrieve search max_excerpt query k =
     (case search query k of
        None \<Rightarrow> Inl RetrievalUnavailableError
      | Some docs \<Rightarrow> Inr (fragments_from max_excerpt 1 (take k (sort_by_score docs))))"

text \<open>
  Modelled from the spec: \<^verbatim>\<open>assemble\<close>, also part of the absent
  \<^verbatim>\<open>KnowledgeBasePlugin\<close>. The specification (4.2): a single structured payload, the
  original query plus, for each fragment, its source identifier and excerpt; an empty
  fragment list is valid and produces a "no supporting documents found" payload.
\<close>

datatype payload =
    NoSupportingDocuments string
  | QueryWithSources string "(string \<times> string) list"

fun assemble :: "string \<Rightarrow> 's RetrievedFragment list \<Rightarrow> payload" where
  "assemble query [] = NoSupportingDocuments query"
| "assemble query (f # fs) =
     QueryWithSources query (map (\<lambda>f. (source_identifier f, excerpt f)) (f # fs))"

text \<open>
  The collaborator of the specification's scenario: five documents, to be cut to three.
\<close>

definition five_documents :: "int index_search" where
  "five_documents query k =
     Some [(''a.pdf'', ''alpha beta'', 7), (''b.pdf'', ''gamma'', 9), (''c.pdf'', ''delta epsilon'', 7),
           (''d.pdf'', ''zeta'', 3), (''e.pdf'', ''eta theta iota'', 9)]"

section \<open>The conversation loop of the specification\<close>














section \<open>Properties of the conversation code\<close>

lemma chat_raise:
  assumes "c (add_user_message (history s) u) (kernel s) = (Inl e, h, k)"
  shows "chat_with_assistant c u s =
     (Inl e, s\<lparr>history := h, kernel := k, stdout := print2 ''User >'' u (stdout s)\<rparr>)"
  using assms by (simp add: chat_with_assistant_def Let_def)

lemma chat_return:
  assumes "c (add_user_message (history s) u) (kernel s) = (Inr r, h, k)"
  shows "chat_with_assistant c u s =
     (Inr None, s\<lparr>history := add_message h r, kernel := k,
        stdout := print2 ''Assistant >'' (content r) (print2 ''User >'' u (stdout s))\<rparr>)"
  using assms by (simp add: chat_with_assistant_def Let_def)

lemma completion_cases:
  obtains e h k where "c (add_user_message (history s) u) (kernel s) = (Inl e, h, k)"
  | r h k where "c (add_user_message (history s) u) (kernel s) = (Inr r, h, k)"
proof (cases "c (add_user_message (history s) u) (kernel s)")
  case (fields a h k)
  then show ?thesis using that by (cases a) auto
qed

lemma chat_prefix:
  assumes "\<forall>h k. prefix h (fst (snd (c h k)))"
  shows "prefix (history s) (history (snd (chat_with_assistant c u s)))"
proof -
  let ?h0 = "add_user_message (history s) u"
  have p0: "prefix (history s) ?h0" by (simp add: add_user_message_def)
  have p1: "prefix ?h0 (fst (snd (c ?h0 (kernel s))))" using assms by blast
  show ?thesis
  proof (cases rule: completion_cases [of c s u])
    case (1 e h k)
    with p0 p1 show ?thesis by (auto simp: chat_raise dest: prefix_order.trans)
  next
    case (2 r h k)
    with p0 p1 have "prefix (history s) h" by (auto dest: prefix_order.trans)
    then have "prefix (history s) (add_message h r)"
      by (simp add: add_message_def prefix_def) auto
    with 2 show ?thesis by (simp add: chat_return)
  qed
qed

lemma session_prefix:
  assumes "\<forall>h k. prefix h (fst (snd (c h k)))"
  shows "prefix (history s) (history (snd (chat_session c us s)))"
proof (induction us arbitrary: s)
  case Nil
  show ?case by simp
next
  case (Cons u us)
  obtain a s' where st: "chat_with_assistant c u s = (a, s')"
    by (cases "chat_with_assistant c u s")
  have p: "prefix (history s) (history s')" using chat_prefix [OF assms, of s u] st by simp
  show ?case
  proof (cases a)
    case (Inl e)
    with st p show ?thesis by simp
  next
    case (Inr v)
    with st have "chat_session c (u # us) s = chat_session c us s'" by simp
    with p Cons.IH [of s'] show ?thesis by (auto dest: prefix_order.trans)
  qed
qed

text \<open>
  C4. The claim: if the outstanding completion call is cancelled or fails, no partial
  turn is appended and the history afterwards equals the history as it was before the
  call was issued. The call is issued on the history that already holds the user's
  message, and the service works on that history itself. When the service has appended
  the result of a function call and is then cancelled, nothing takes that turn back:
  the history afterwards is neither the history on which the call was issued nor the
  history before \<open>chat_with_assistant\<close> was entered.
\<close>

theorem interrupted_call_counterexample:
  "fst (chat_with_assistant interrupted ''hi'' fresh) = Inl CancelledError \<and>
   history (snd (chat_with_assistant interrupted ''hi'' fresh))
     \<noteq> add_user_message (history fresh) ''hi'' \<and>
   history (snd (chat_with_assistant interrupted ''hi'' fresh)) \<noteq> history fresh"
  by (simp add: chat_with_assistant_def interrupted_def fresh_def add_user_message_def
      print2_def Let_def)

text \<open>
  C4, as the code has it: when the awaited call raises (cancellation or failure),
  \<open>chat_with_assistant\<close> raises the same exception, appends no assistant turn, prints
  no assistant line and reverts nothing: the history afterwards is the history as the
  call left it, and the kernel likewise. It equals the history on which the call was
  issued (the history before \<open>chat_with_assistant\<close> followed by the user's message)
  exactly when the service left that history as it received it.
\<close>

theorem failed_call_reverts_nothing:
  assumes "c (add_user_message (history s) u) (kernel s) = (Inl e, h, k)"
  shows "fst (chat_with_assistant c u s) = Inl e \<and>
     history (snd (chat_with_assistant c u s)) = h \<and>
     kernel (snd (chat_with_assistant c u s)) = k \<and>
     stdout (snd (chat_with_assistant c u s)) = stdout s @ [''User > '' @ u] \<and>
     ((history (snd (chat_with_assistant c u s)) = add_user_message (history s) u)
        = (h = add_user_message (history s) u)) \<and>
     (h = add_user_message (history s) u \<longrightarrow>
        history (snd (chat_with_assistant c u s)) = history s @ [\<lparr>role = User, content = u\<rparr>])"
  using assms by (simp add: chat_raise print2_def add_user_message_def)

theorem failed_call_reverts_nothing_witness:
  "fst (chat_with_assistant cancelled ''hi'' fresh) = Inl CancelledError \<and>
   history (snd (chat_with_assistant cancelled ''hi'' fresh)) = [\<lparr>role = User, content = ''hi''\<rparr>] \<and>
   stdout (snd (chat_with_assistant cancelled ''hi'' fresh)) = [''User > hi''] \<and>
   fst (chat_with_assistant interrupted ''hi'' fresh) = Inl CancelledError \<and>
   history (snd (chat_with_assistant interrupted ''hi'' fresh)) =
     [\<lparr>role = User, content = ''hi''\<rparr>, \<lparr>role = Tool, content = ''Table Lamp: on''\<rparr>] \<and>
   kernel (snd (chat_with_assistant interrupted ''hi'' fresh)) = 1 \<and>
   stdout (snd (chat_with_assistant interrupted ''hi'' fresh)) = [''User > hi'']"
proof -
  have h: "cancelled (add_user_message (history fresh) ''hi'') (kernel fresh)
      = (Inl CancelledError, add_user_message (history fresh) ''hi'', kernel fresh)"
    by (simp add: cancelled_def)
  have i: "interrupted (add_user_message (history fresh) ''hi'') (kernel fresh)
      = (Inl CancelledError,
         [\<lparr>role = User, content = ''hi''\<rparr>, \<lparr>role = Tool, content = ''Table Lamp: on''\<rparr>], 1)"
    by (simp add: interrupted_def add_user_message_def fresh_def)
  have f: "history fresh = []" "stdout fresh = []" by (simp_all add: fresh_def)
  from failed_call_reverts_nothing [of cancelled fresh "''hi''", OF h] f
  have 1: "fst (chat_with_assistant cancelled ''hi'' fresh) = Inl CancelledError \<and>
      history (snd (chat_with_assistant cancelled ''hi'' fresh)) = [\<lparr>role = User, content = ''hi''\<rparr>] \<and>
      stdout (snd (chat_with_assistant cancelled ''hi'' fresh)) = [''User > hi'']"
    by (simp add: add_user_message_def)
  from failed_call_reverts_nothing [of interrupted fresh "''hi''", OF i] f
  have 2: "fst (chat_with_assistant interrupted ''hi'' fresh) = Inl CancelledError \<and>
      history (snd (chat_with_assistant interrupted ''hi'' fresh)) =
        [\<lparr>role = User, content = ''hi''\<rparr>, \<lparr>role = Tool, content = ''Table Lamp: on''\<rparr>] \<and>
      kernel (snd (chat_with_assistant interrupted ''hi'' fresh)) = 1 \<and>
      stdout (snd (chat_with_assistant interrupted ''hi'' fresh)) = [''User > hi'']"
    by simp
  from 1 2 show ?thesis by simp
qed

text \<open>
  C5. The history is append-only. Both operations of the conversation code on the
  history, \<open>add_user_message\<close> and \<open>add_message\<close>, extend it at the end. With a
  completion service that only extends the history it is given, the history before a
  call of \<open>chat_with_assistant\<close>, and before a whole cell of calls, is a prefix of the
  history after it; and a call that completes appends the answer once, as the last
  turn after what the service left.
\<close>

theorem history_append_only:
  assumes "\<forall>h k. prefix h (fst (snd (c h k)))"
  shows "prefix h0 (add_user_message h0 u) \<and> prefix h0 (add_message h0 m) \<and>
     prefix (history s) (history (snd (chat_with_assistant c u s))) \<and>
     prefix (history s) (history (snd (chat_session c us s))) \<and>
     (\<forall>r h k. c (add_user_message (history s) u) (kernel s) = (Inr r, h, k) \<longrightarrow>
        history (snd (chat_with_assistant c u s)) = h @ [r])"
  using chat_prefix [OF assms] session_prefix [OF assms]
  by (simp add: add_user_message_def add_message_def chat_return)

theorem history_append_only_witness:
  "prefix (history fresh) (history (snd (chat_session answering [''a'', ''b''] fresh))) \<and>
   history (snd (chat_with_assistant answering ''a'' fresh)) =
     [\<lparr>role = User, content = ''a''\<rparr>, \<lparr>role = Assistant, content = ''ok''\<rparr>]"
proof -
  have a: "\<forall>h k. prefix h (fst (snd (answering h k)))" by (simp add: answering_def)
  have c: "answering (add_user_message (history fresh) ''a'') (kernel fresh)
      = (Inr \<lparr>role = Assistant, content = ''ok''\<rparr>, [\<lparr>role = User, content = ''a''\<rparr>], Suc 0)"
    by (simp add: answering_def add_user_message_def fresh_def)
  from history_append_only [OF a, of "[]" "''a''" "\<lparr>role = Assistant, content = ''ok''\<rparr>" fresh
      "[''a'', ''b'']"] c
  show ?thesis by simp
qed

text \<open>
  C10. \<open>chat_with_assistant\<close> returns no value: whenever it returns, it returns
  \<open>None\<close>. The reply reaches the caller only through the state: it is printed after the
  user's line and appended to the shared history. The state persists: the second call
  of a cell hands the completion service the history and the kernel that the first
  call left.
\<close>

theorem chat_returns_none:
  "(\<forall>v s'. chat_with_assistant c u s = (Inr v, s') \<longrightarrow> v = None) \<and>
   (\<forall>r h k. c (add_user_message (history s) u) (kernel s) = (Inr r, h, k) \<longrightarrow>
      chat_with_assistant c u s =
        (Inr None, s\<lparr>history := h @ [r], kernel := k,
           stdout := stdout s @ [''User > '' @ u, ''Assistant > '' @ content r]\<rparr>)) \<and>
   (\<forall>r1 h1 k1 r2 h2 k2.
      c (history s @ [\<lparr>role = User, content = u\<rparr>]) (kernel s) = (Inr r1, h1, k1) \<and>
      c (h1 @ [r1, \<lparr>role = User, content = u2\<rparr>]) k1 = (Inr r2, h2, k2) \<longrightarrow>
      chat_session c [u, u2] s =
        (Inr (), s\<lparr>history := h2 @ [r2], kernel := k2,
           stdout := stdout s @ [''User > '' @ u, ''Assistant > '' @ content r1,
                                 ''User > '' @ u2, ''Assistant > '' @ content r2]\<rparr>))"
proof (intro conjI allI impI)
  fix v s' assume "chat_with_assistant c u s = (Inr v, s')"
  then show "v = None"
    by (cases rule: completion_cases [of c s u]) (simp_all add: chat_raise chat_return)
next
  fix r h k assume "c (add_user_message (history s) u) (kernel s) = (Inr r, h, k)"
  then show "chat_with_assistant c u s =
        (Inr None, s\<lparr>history := h @ [r], kernel := k,
           stdout := stdout s @ [''User > '' @ u, ''Assistant > '' @ content r]\<rparr>)"
    by (simp add: chat_return add_message_def print2_def)
next
  fix r1 h1 k1 r2 h2 k2
  assume a: "c (history s @ [\<lparr>role = User, content = u\<rparr>]) (kernel s) = (Inr r1, h1, k1) \<and>
      c (h1 @ [r1, \<lparr>role = User, content = u2\<rparr>]) k1 = (Inr r2, h2, k2)"
  let ?s1 = "s\<lparr>history := add_message h1 r1, kernel := k1,
        stdout := print2 ''Assistant >'' (content r1) (print2 ''User >'' u (stdout s))\<rparr>"
  from a have 1: "chat_with_assistant c u s = (Inr None, ?s1)"
    by (intro chat_return) (simp add: add_user_message_def)
  from a have "c (add_user_message (history ?s1) u2) (kernel ?s1) = (Inr r2, h2, k2)"
    by (simp add: add_user_message_def add_message_def)
  from chat_return [of c ?s1 u2 r2 h2 k2, OF this] have 2: "chat_with_assistant c u2 ?s1 =
     (Inr None, ?s1\<lparr>history := add_message h2 r2, kernel := k2,
        stdout := print2 ''Assistant >'' (content r2) (print2 ''User >'' u2 (stdout ?s1))\<rparr>)" .
  show "chat_session c [u, u2] s =
        (Inr (), s\<lparr>history := h2 @ [r2], kernel := k2,
           stdout := stdout s @ [''User > '' @ u, ''Assistant > '' @ content r1,
                                 ''User > '' @ u2, ''Assistant > '' @ content r2]\<rparr>)"
    by (simp add: 1 2) (simp add: add_message_def print2_def)
qed

theorem chat_returns_none_witness:
  "chat_with_assistant answering ''a'' fresh =
     (Inr None, \<lparr>history = [\<lparr>role = User, content = ''a''\<rparr>, \<lparr>role = Assistant, content = ''ok''\<rparr>],
                 kernel = 1, stdout = [''User > a'', ''Assistant > ok'']\<rparr>) \<and>
   chat_session answering [''a'', ''b''] fresh =
     (Inr (), \<lparr>history = [\<lparr>role = User, content = ''a''\<rparr>, \<lparr>role = Assistant, content = ''ok''\<rparr>,
                           \<lparr>role = User, content = ''b''\<rparr>, \<lparr>role = Assistant, content = ''ok''\<rparr>],
               kernel = 2,
               stdout = [''User > a'', ''Assistant > ok'', ''User > b'', ''Assistant > ok'']\<rparr>)"
proof -
  have 1: "answering (add_user_message (history fresh) ''a'') (kernel fresh)
      = (Inr \<lparr>role = Assistant, content = ''ok''\<rparr>, [\<lparr>role = User, content = ''a''\<rparr>], 1)"
    by (simp add: answering_def add_user_message_def fresh_def)
  have 2: "answering (history fresh @ [\<lparr>role = User, content = ''a''\<rparr>]) (kernel fresh)
      = (Inr \<lparr>role = Assistant, content = ''ok''\<rparr>, [\<lparr>role = User, content = ''a''\<rparr>], 1) \<and>
    answering ([\<lparr>role = User, content = ''a''\<rparr>] @ [\<lparr>role = Assistant, content = ''ok''\<rparr>,
                 \<lparr>role = User, content = ''b''\<rparr>]) 1
      = (Inr \<lparr>role = Assistant, content = ''ok''\<rparr>,
         [\<lparr>role = User, content = ''a''\<rparr>, \<lparr>role = Assistant, content = ''ok''\<rparr>,
          \<lparr>role = User, content = ''b''\<rparr>], 2)"
    by (simp add: answering_def fresh_def)
  note t = chat_returns_none [of answering "''a''" fresh "''b''"]
  from t [THEN conjunct2, THEN conjunct1, rule_format, OF 1]
       t [THEN conjunct2, THEN conjunct2, rule_format, OF 2]
  show ?thesis by (simp add: fresh_def)
qed

section \<open>Properties of the plugin collection and the registry\<close>

lemma map_of_set_item: "map_of (set_item k v d) = (map_of d)(k \<mapsto> v)"
  by (induction d) (auto simp: fun_eq_iff)

lemma set_item_new: "k \<notin> set (map fst d) \<Longrightarrow> set_item k v d = d @ [(k, v)]"
  by (induction d) auto

lemma set_item_existing:
  "map_of d k = Some v \<Longrightarrow>
   \<exists>pre post. d = pre @ (k, v) # post \<and> k \<notin> set (map fst pre) \<and>
      set_item k v' d = pre @ (k, v') # post"
proof (induction d)
  case Nil
  then show ?case by simp
next
  case (Cons kv d)
  obtain k' w where kv: "kv = (k', w)" by (cases kv)
  show ?case
  proof (cases "k' = k")
    case True
    with Cons.prems kv have "w = v" by simp
    with True kv have "kv # d = [] @ (k, v) # d \<and> k \<notin> set (map fst []) \<and>
        set_item k v' (kv # d) = [] @ (k, v') # d" by simp
    then show ?thesis by blast
  next
    case False
    with Cons.prems kv have "map_of d k = Some v" by simp
    from Cons.IH [OF this] obtain pre post where
      p: "d = pre @ (k, v) # post" "k \<notin> set (map fst pre)" "set_item k v' d = pre @ (k, v') # post"
      by blast
    with False kv have "kv # d = (kv # pre) @ (k, v) # post \<and> k \<notin> set (map fst (kv # pre)) \<and>
        set_item k v' (kv # d) = (kv # pre) @ (k, v') # post" by auto
    then show ?thesis by blast
  qed
qed

lemma map_of_del: "map_of (filter (\<lambda>(k', v). k' \<noteq> k) d) = (map_of d)(k := None)"
  by (induction d) (auto simp: fun_eq_iff)

lemma lookup_register:
  "lookup reg ns (name d) = None \<Longrightarrow>
   lookup (snd (register ns d impl reg)) ns' nm' =
     (if ns' = ns \<and> nm' = name d then Some (d, impl) else lookup reg ns' nm')"
  by (auto simp: register_def lookup_def map_of_set_item Let_def split: option.splits)

lemma register_fresh:
  "lookup reg ns (name d) = None \<Longrightarrow> fst (register ns d impl reg) = Inr ()"
  by (simp add: register_def Let_def)

lemma register_existing:
  "lookup reg ns (name d) \<noteq> None \<Longrightarrow> register ns d impl reg = (Inl DuplicateNameError, reg)"
  by (simp add: register_def)

text \<open>
  C2. Registering a pair (namespace, name) that is already registered fails with
  DuplicateNameError and leaves the registry as it was, so the entry is still the
  descriptor and implementation registered before; registering an absent pair returns
  nothing, binds the pair to the new descriptor and implementation, and changes no
  other pair.
\<close>

theorem register_duplicate_fails:
  "(lookup reg ns (name d) \<noteq> None \<longrightarrow>
      register ns d impl reg = (Inl DuplicateNameError, reg) \<and>
      lookup (snd (register ns d impl reg)) ns (name d) = lookup reg ns (name d)) \<and>
   (lookup reg ns (name d) = None \<longrightarrow>
      fst (register ns d impl reg) = Inr () \<and>
      lookup (snd (register ns d impl reg)) ns (name d) = Some (d, impl) \<and>
      (\<forall>ns' nm'. (ns', nm') \<noteq> (ns, name d) \<longrightarrow>
         lookup (snd (register ns d impl reg)) ns' nm' = lookup reg ns' nm'))"
  by (auto simp: register_existing register_fresh lookup_register)

lemma invoke_found:
  "lookup reg ns nm = Some (d, impl) \<Longrightarrow> validate (parameter_schema d) args \<Longrightarrow>
   invoke reg ns nm args st =
     (case impl args st of (Inl x, st') \<Rightarrow> (Inl (FunctionExecutionError x), st')
                         | (Inr r, st') \<Rightarrow> (Inr r, st'))"
  by (simp add: invoke_def)

text \<open>
  C1. For a registered pair and arguments that pass the validation of the descriptor's
  schema, \<open>invoke\<close> gives what the bound implementation gives on these arguments and
  this state: its result and the state it leaves, when it returns; and
  FunctionExecutionError around its failure, when it raises.
\<close>

theorem invoke_returns_implementation_result:
  assumes "lookup reg ns nm = Some (d, impl)" and "validate (parameter_schema d) args"
  shows "(\<forall>r st'. impl args st = (Inr r, st') \<longrightarrow> invoke reg ns nm args st = (Inr r, st')) \<and>
         (\<forall>x st'. impl args st = (Inl x, st') \<longrightarrow>
            invoke reg ns nm args st = (Inl (FunctionExecutionError x), st'))"
  using assms by (simp add: invoke_found)

lemma not_contains_filter:
  "\<not> contains ns reg \<Longrightarrow> filter (\<lambda>(k', v). k' \<noteq> ns) reg = reg"
  by (induction reg) (auto simp: contains_def)

lemma unregister_eq: "unregister ns reg = Inr (filter (\<lambda>(k', v). k' \<noteq> ns) reg)"
proof (cases "contains ns reg")
  case True
  then show ?thesis by (simp add: unregister_def del_item_def)
next
  case False
  then have "filter (\<lambda>(k', v). k' \<noteq> ns) reg = reg"
    by (rule not_contains_filter)
  with False show ?thesis by (simp add: unregister_def)
qed


lemma catalog_Cons:
  "catalog ((ns, p) # reg) = map (\<lambda>(_, func, _). (ns, func)) p @ catalog reg"
  by (simp add: catalog_def)

lemma catalog_Nil: "catalog [] = []"
  by (simp add: catalog_def)

lemma catalog_filter:
  "catalog (filter (\<lambda>(k', v). k' \<noteq> ns) reg) = filter (\<lambda>(n, d). n \<noteq> ns) (catalog reg)"
proof (induction reg)
  case Nil
  show ?case by (simp add: catalog_Nil)
next
  case (Cons a reg)
  obtain k p where a: "a = (k, p)" by (cases a)
  show ?case
  proof (cases "k = ns")
    case True
    have "filter (\<lambda>(n, d). n \<noteq> ns) (map (\<lambda>(_, func, _). (ns, func)) p) = []"
      by (induction p) auto
    with True a Cons.IH show ?thesis by (simp add: catalog_Cons)
  next
    case False
    have "filter (\<lambda>(n, d). n \<noteq> ns) (map (\<lambda>(_, func, _). (k, func)) p)
        = map (\<lambda>(_, func, _). (k, func)) p"
      using False by (induction p) auto
    with False a Cons.IH show ?thesis by (simp add: catalog_Cons)
  qed
qed


text \<open>
  C7. \<open>unregister\<close> never raises, whether the namespace is registered or not.
  Afterwards no function is registered under the namespace, every other namespace
  resolves as before, the catalog is the old one without the entries of the namespace,
  and a registry that did not have the namespace is returned as it was.
\<close>

theorem unregister_removes_namespace:
  "\<exists>reg'. unregister ns reg = Inr reg' \<and>
      (\<forall>nm. lookup reg' ns nm = None) \<and> \<not> contains ns reg' \<and>
      (\<forall>ns' nm. ns' \<noteq> ns \<longrightarrow> lookup reg' ns' nm = lookup reg ns' nm) \<and>
      catalog reg' = filter (\<lambda>(n, d). n \<noteq> ns) (catalog reg) \<and>
      (\<not> contains ns reg \<longrightarrow> reg' = reg)"
proof -
  let ?r = "filter (\<lambda>(k', v). k' \<noteq> ns) reg"
  have "unregister ns reg = Inr ?r" by (rule unregister_eq)
  moreover have "\<forall>nm. lookup ?r ns nm = None" by (simp add: lookup_def map_of_del)
  moreover have "\<not> contains ns ?r" by (auto simp: contains_def)
  moreover have "\<forall>ns' nm. ns' \<noteq> ns \<longrightarrow> lookup ?r ns' nm = lookup reg ns' nm"
    by (simp add: lookup_def map_of_del)
  moreover have "catalog ?r = filter (\<lambda>(n, d). n \<noteq> ns) (catalog reg)" by (rule catalog_filter)
  moreover have "\<not> contains ns reg \<longrightarrow> ?r = reg" by (simp add: not_contains_filter)
  ultimately show ?thesis by blast
qed

lemma map_of_in_wf: "distinct (map fst d) \<Longrightarrow> (map_of d k = Some v) = ((k, v) \<in> set d)"
  by simp





lemma register_new_namespace:
  assumes "\<not> contains ns reg"
  shows "register ns d impl reg = (Inr (), reg @ [(ns, [(name d, d, impl)])])"
proof -
  from assms have n: "ns \<notin> set (map fst reg)" by (simp add: contains_def)
  then have m: "map_of reg ns = None" by (simp add: map_of_eq_None_iff)
  with n show ?thesis by (simp add: register_def lookup_def Let_def set_item_new)
qed

lemma register_old_namespace:
  assumes "map_of reg ns = Some p" and "map_of p (name d) = None"
  shows "\<exists>pre post. reg = pre @ (ns, p) # post \<and> ns \<notin> set (map fst pre) \<and>
     register ns d impl reg = (Inr (), pre @ (ns, p @ [(name d, d, impl)]) # post)"
proof -
  from assms(2) have "name d \<notin> set (map fst p)" by (simp add: map_of_eq_None_iff)
  then have p': "set_item (name d) (d, impl) p = p @ [(name d, d, impl)]" by (rule set_item_new)
  from set_item_existing [OF assms(1), of "p @ [(name d, d, impl)]"] obtain pre post where
    s: "reg = pre @ (ns, p) # post" "ns \<notin> set (map fst pre)"
       "set_item ns (p @ [(name d, d, impl)]) reg = pre @ (ns, p @ [(name d, d, impl)]) # post"
    by blast
  from assms p' s(3) have "register ns d impl reg = (Inr (), pre @ (ns, p @ [(name d, d, impl)]) # post)"
    by (simp add: register_def lookup_def Let_def)
  with s(1,2) show ?thesis
    by (intro exI [of _ pre] exI [of _ post] conjI)
qed


lemma wf_register:
  assumes "wf_registry reg"
  shows "wf_registry (snd (register ns d impl reg))"
proof (cases "lookup reg ns (name d)")
  case (Some e)
  with assms show ?thesis by (simp add: register_def)
next
  case None
  show ?thesis
  proof (cases "map_of reg ns")
    case n: None
    then have nc: "\<not> contains ns reg" by (simp add: contains_def map_of_eq_None_iff)
    with assms show ?thesis
      by (simp add: register_new_namespace wf_registry_def wf_plugin_def contains_def)
  next
    case (Some p)
    with None have m: "map_of p (name d) = None" by (simp add: lookup_def)
    from register_old_namespace [OF Some m, of impl] obtain pre post where
      s: "reg = pre @ (ns, p) # post" "ns \<notin> set (map fst pre)"
         "register ns d impl reg = (Inr (), pre @ (ns, p @ [(name d, d, impl)]) # post)"
      by blast
    from assms s(1) have "wf_plugin p" by (auto simp: wf_registry_def)
    with m have "wf_plugin (p @ [(name d, d, impl)])"
      by (simp add: wf_plugin_def map_of_eq_None_iff)
    with assms s(1) have "wf_registry (pre @ (ns, p @ [(name d, d, impl)]) # post)"
      by (simp add: wf_registry_def)
    with s(3) show ?thesis by simp
  qed
qed

lemma wf_unregister:
  assumes "wf_registry reg" and "unregister ns reg = Inr reg'"
  shows "wf_registry reg'"
proof -
  from assms(2) have "reg' = filter (\<lambda>(k', v). k' \<noteq> ns) reg" by (simp add: unregister_eq)
  with assms(1) show ?thesis by (simp add: wf_registry_def distinct_map_filter list_all_iff)
qed

lemma lights_registry_eq:
  "lights_registry = [(''Lights'', [(''change_state'', change_state_descriptor, change_state),
                                   (''get_lights'', get_lights_descriptor, get_lights)])]"
  by (simp add: lights_registry_def register_def lookup_def Let_def
      change_state_descriptor_def get_lights_descriptor_def)

lemma interleaved_registry_eq:
  "interleaved_registry =
     [(''Lights'', [(''change_state'', change_state_descriptor, change_state),
                   (''get_lights'', get_lights_descriptor, get_lights)]),
      (''KnowledgeBase'', [(''search_docs'', search_docs_descriptor, search_docs)])]"
  by (simp add: interleaved_registry_def register_def lookup_def Let_def
      change_state_descriptor_def get_lights_descriptor_def search_docs_descriptor_def)





theorem register_duplicate_fails_witness:
  "register ''Lights'' get_lights_descriptor change_state lights_registry
     = (Inl DuplicateNameError, lights_registry) \<and>
   lookup lights_registry ''Lights'' ''get_lights'' = Some (get_lights_descriptor, get_lights) \<and>
   fst (register ''KnowledgeBase'' search_docs_descriptor search_docs lights_registry) = Inr () \<and>
   lookup (snd (register ''KnowledgeBase'' search_docs_descriptor search_docs lights_registry))
     ''KnowledgeBase'' ''search_docs'' = Some (search_docs_descriptor, search_docs)"
proof -
  have l: "lookup lights_registry ''Lights'' (name get_lights_descriptor)
      = Some (get_lights_descriptor, get_lights)"
    by (simp add: lights_registry_eq lookup_def get_lights_descriptor_def)
  have n: "lookup lights_registry ''KnowledgeBase'' (name search_docs_descriptor) = None"
    by (simp add: lights_registry_eq lookup_def)
  have g: "name get_lights_descriptor = ''get_lights''" by (simp add: get_lights_descriptor_def)
  have k: "name search_docs_descriptor = ''search_docs''" by (simp add: search_docs_descriptor_def)
  from register_duplicate_fails [of lights_registry "''Lights''" get_lights_descriptor change_state] l
  have 1: "register ''Lights'' get_lights_descriptor change_state lights_registry
     = (Inl DuplicateNameError, lights_registry)" by simp
  from register_duplicate_fails [of lights_registry "''KnowledgeBase''" search_docs_descriptor search_docs] n
  have 2: "fst (register ''KnowledgeBase'' search_docs_descriptor search_docs lights_registry) = Inr () \<and>
      lookup (snd (register ''KnowledgeBase'' search_docs_descriptor search_docs lights_registry))
        ''KnowledgeBase'' (name search_docs_descriptor) = Some (search_docs_descriptor, search_docs)"
    by simp
  from 1 2 l show ?thesis by (simp add: g k)
qed

lemma invoke_after_register:
  assumes "lookup reg ns (name d) = None" and "validate (parameter_schema d) args"
  shows "invoke (snd (register ns d impl reg)) ns (name d) args st =
     (case impl args st of (Inl x, st') \<Rightarrow> (Inl (FunctionExecutionError x), st')
                         | (Inr r, st') \<Rightarrow> (Inr r, st'))"
  using assms by (simp add: invoke_found lookup_register)

theorem invoke_returns_implementation_result_witness:
  "invoke lights_registry ''Lights'' ''change_state''
      [(''id'', VString ''Table Lamp''), (''on'', VBoolean True)] [(''Table Lamp'', False)]
     = (Inr [(''Table Lamp'', True)], [(''Table Lamp'', True)]) \<and>
   invoke lights_registry ''Lights'' ''change_state''
      [(''id'', VString ''Porch Light''), (''on'', VBoolean True)] [(''Table Lamp'', False)]
     = (Inl (FunctionExecutionError ''no such light''), [(''Table Lamp'', False)])"
proof -
  let ?a = "[(''id'', VString ''Table Lamp''), (''on'', VBoolean True)]"
  let ?b = "[(''id'', VString ''Porch Light''), (''on'', VBoolean True)]"
  let ?st = "[(''Table Lamp'', False)]"
  have l: "lookup lights_registry ''Lights'' ''change_state''
      = Some (change_state_descriptor, change_state)"
    by (simp add: lights_registry_eq lookup_def)
  have va: "validate (parameter_schema change_state_descriptor) ?a"
    by (simp add: validate_def valid_param_def change_state_descriptor_def)
  have vb: "validate (parameter_schema change_state_descriptor) ?b"
    by (simp add: validate_def valid_param_def change_state_descriptor_def)
  have ca: "change_state ?a ?st = (Inr [(''Table Lamp'', True)], [(''Table Lamp'', True)])"
    by (simp add: change_state_def contains_def Let_def)
  have cb: "change_state ?b ?st = (Inl ''no such light'', ?st)"
    by (simp add: change_state_def contains_def)
  from invoke_returns_implementation_result [OF l va, of ?st] ca
  have 1: "invoke lights_registry ''Lights'' ''change_state'' ?a ?st
     = (Inr [(''Table Lamp'', True)], [(''Table Lamp'', True)])" by simp
  from invoke_returns_implementation_result [OF l vb, of ?st] cb
  have 2: "invoke lights_registry ''Lights'' ''change_state'' ?b ?st
     = (Inl (FunctionExecutionError ''no such light''), ?st)" by simp
  from 1 2 show ?thesis by (intro conjI)
qed

theorem unregister_removes_namespace_witness:
  "unregister ''KnowledgeBase'' lights_registry = Inr lights_registry \<and>
   (\<exists>reg'. unregister ''KnowledgeBase'' interleaved_registry = Inr reg' \<and>
      catalog reg' = [(''Lights'', change_state_descriptor), (''Lights'', get_lights_descriptor)])"
proof -
  have c: "\<not> contains ''KnowledgeBase'' lights_registry"
    by (simp add: lights_registry_eq contains_def)
  from unregister_removes_namespace [of "''KnowledgeBase''" lights_registry] c
  have 1: "unregister ''KnowledgeBase'' lights_registry = Inr lights_registry" by auto
  from unregister_removes_namespace [of "''KnowledgeBase''" interleaved_registry] obtain reg' where
    r: "unregister ''KnowledgeBase'' interleaved_registry = Inr reg'"
       "catalog reg' = filter (\<lambda>(n, d). n \<noteq> ''KnowledgeBase'') (catalog interleaved_registry)"
    by blast
  have "filter (\<lambda>(n, d). n \<noteq> ''KnowledgeBase'') (catalog interleaved_registry)
      = [(''Lights'', change_state_descriptor), (''Lights'', get_lights_descriptor)]"
    by (simp add: interleaved_registry_eq catalog_def)
  with r have "\<exists>reg'. unregister ''KnowledgeBase'' interleaved_registry = Inr reg' \<and>
      catalog reg' = [(''Lights'', change_state_descriptor), (''Lights'', get_lights_descriptor)]"
    by (intro exI [of _ reg']) simp
  with 1 show ?thesis by (intro conjI)
qed

section \<open>Properties of the context assembler\<close>

lemma length_insert_by_score: "length (insert_by_score d es) = Suc (length es)"
  by (induction es) auto

lemma set_insert_by_score: "set (insert_by_score d es) = insert d (set es)"
  by (induction es) auto

lemma sorted_insert_by_score:
  "sorted_wrt (\<lambda>a b. snd (snd b) \<le> snd (snd a)) es \<Longrightarrow>
   sorted_wrt (\<lambda>a b. snd (snd b) \<le> snd (snd a)) (insert_by_score d es)"
  by (induction es) (auto simp: set_insert_by_score)

lemma sorted_sort_by_score: "sorted_wrt (\<lambda>a b. snd (snd b) \<le> snd (snd a)) (sort_by_score docs)"
  unfolding sort_by_score_def by (induction docs) (auto intro: sorted_insert_by_score)

lemma length_sort_by_score: "length (sort_by_score docs) = length docs"
  unfolding sort_by_score_def by (induction docs) (auto simp: length_insert_by_score)

lemma filter_insert_by_score:
  "sorted_wrt (\<lambda>a b. snd (snd b) \<le> snd (snd a)) es \<Longrightarrow>
   filter (\<lambda>e. snd (snd e) = s) (insert_by_score d es) =
     (if snd (snd d) = s then d # filter (\<lambda>e. snd (snd e) = s) es
      else filter (\<lambda>e. snd (snd e) = s) es)"
proof (induction es)
  case Nil
  show ?case by simp
next
  case (Cons e es)
  show ?case
  proof (cases "snd (snd e) \<le> snd (snd d)")
    case True
    then show ?thesis by simp
  next
    case False
    then have lt: "snd (snd d) < snd (snd e)" by simp
    from Cons.prems have le: "\<forall>x \<in> set es. snd (snd x) \<le> snd (snd e)" by simp
    from Cons.prems have "sorted_wrt (\<lambda>a b. snd (snd b) \<le> snd (snd a)) es" by simp
    note ih = Cons.IH [OF this]
    show ?thesis
    proof (cases "snd (snd d) = s")
      case True
      with lt have "snd (snd e) \<noteq> s" by auto
      with True False ih show ?thesis by simp
    next
      case False
      with \<open>\<not> snd (snd e) \<le> snd (snd d)\<close> ih show ?thesis by simp
    qed
  qed
qed

lemma filter_sort_by_score:
  "filter (\<lambda>e. snd (snd e) = s) (sort_by_score docs) = filter (\<lambda>e. snd (snd e) = s) docs"
proof (induction docs)
  case Nil
  show ?case by (simp add: sort_by_score_def)
next
  case (Cons d docs)
  have "sort_by_score (d # docs) = insert_by_score d (sort_by_score docs)"
    by (simp add: sort_by_score_def)
  with Cons.IH sorted_sort_by_score [of docs] show ?case
    by (simp add: filter_insert_by_score)
qed

lemma length_fragments_from: "length (fragments_from m r docs) = length docs"
  by (induction m r docs rule: fragments_from.induct) auto

lemma excerpt_fragments_from: "f \<in> set (fragments_from m r docs) \<Longrightarrow> length (excerpt f) \<le> m"
  by (induction m r docs rule: fragments_from.induct) auto

lemma score_fragments_from: "map relevance_score (fragments_from m r docs) = map (\<lambda>d. snd (snd d)) docs"
  by (induction m r docs rule: fragments_from.induct) auto

lemma rank_fragments_from: "map rank (fragments_from m r docs) = [r ..< r + length docs]"
  by (induction m r docs rule: fragments_from.induct) (auto simp: upt_rec)

lemma sorted_fragments_from:
  "sorted_wrt (\<lambda>a b. snd (snd b) \<le> snd (snd a)) docs \<Longrightarrow>
   sorted_wrt (\<lambda>a b. relevance_score b \<le> relevance_score a) (fragments_from m r docs)"
proof -
  assume "sorted_wrt (\<lambda>a b. snd (snd b) \<le> snd (snd a)) docs"
  then have "sorted_wrt (\<lambda>a b. b \<le> a) (map (\<lambda>d. snd (snd d)) docs)"
    by (simp add: sorted_wrt_map)
  then have "sorted_wrt (\<lambda>a b. b \<le> a) (map relevance_score (fragments_from m r docs))"
    by (simp add: score_fragments_from)
  then show ?thesis by (simp add: sorted_wrt_map)
qed

lemma filter_fragments_from:
  "map source_identifier (filter (\<lambda>f. relevance_score f = s) (fragments_from m r docs)) =
   map fst (filter (\<lambda>d. snd (snd d) = s) docs)"
  by (induction m r docs rule: fragments_from.induct) auto

lemma prefix_filter_take: "prefix (filter P (take k xs)) (filter P xs)"
proof -
  have "filter P xs = filter P (take k xs) @ filter P (drop k xs)"
    by (metis append_take_drop_id filter_append)
  then show ?thesis by (simp add: prefix_def)
qed

lemma sorted_wrt_take: "sorted_wrt R xs \<Longrightarrow> sorted_wrt R (take k xs)"
  by (metis append_take_drop_id sorted_wrt_append)

text \<open>
  C3. Whenever the collaborator answers, \<open>retrieve\<close> returns fragments: at most \<open>k\<close>
  of them, in non-increasing order of relevance score, the fragments of equal score in
  the order in which the collaborator gave their documents, every excerpt no longer
  than the configured maximum, and ranked 1, 2, ... in that order.
\<close>

theorem retrieve_bounded_sorted_truncated:
  assumes "search query k = Some docs"
  shows "\<exists>fs. retrieve search max_excerpt query k = Inr fs \<and>
     length fs \<le> k \<and>
     sorted_wrt (\<lambda>a b. relevance_score b \<le> relevance_score a) fs \<and>
     (\<forall>s. prefix (map source_identifier (filter (\<lambda>f. relevance_score f = s) fs))
                 (map fst (filter (\<lambda>d. snd (snd d) = s) docs))) \<and>
     (\<forall>f \<in> set fs. length (excerpt f) \<le> max_excerpt) \<and>
     map rank fs = [1 ..< 1 + length fs]"
proof -
  let ?top = "take k (sort_by_score docs)"
  let ?fs = "fragments_from max_excerpt 1 ?top"
  from assms have r: "retrieve search max_excerpt query k = Inr ?fs" by (simp add: retrieve_def)
  have 1: "length ?fs \<le> k" by (simp add: length_fragments_from)
  have 2: "sorted_wrt (\<lambda>a b. relevance_score b \<le> relevance_score a) ?fs"
    by (intro sorted_fragments_from sorted_wrt_take sorted_sort_by_score)
  have 3: "\<forall>s. prefix (map source_identifier (filter (\<lambda>f. relevance_score f = s) ?fs))
                 (map fst (filter (\<lambda>d. snd (snd d) = s) docs))"
  proof
    fix s
    have "prefix (filter (\<lambda>d. snd (snd d) = s) ?top) (filter (\<lambda>d. snd (snd d) = s) (sort_by_score docs))"
      by (rule prefix_filter_take)
    then have "prefix (filter (\<lambda>d. snd (snd d) = s) ?top) (filter (\<lambda>d. snd (snd d) = s) docs)"
      by (simp add: filter_sort_by_score)
    then have "prefix (map fst (filter (\<lambda>d. snd (snd d) = s) ?top))
                 (map fst (filter (\<lambda>d. snd (snd d) = s) docs))"
      by (rule map_mono_prefix)
    then show "prefix (map source_identifier (filter (\<lambda>f. relevance_score f = s) ?fs))
                 (map fst (filter (\<lambda>d. snd (snd d) = s) docs))"
      by (simp add: filter_fragments_from)
  qed
  have 4: "\<forall>f \<in> set ?fs. length (excerpt f) \<le> max_excerpt"
    by (auto dest: excerpt_fragments_from)
  have 5: "map rank ?fs = [1 ..< 1 + length ?fs]"
    by (simp add: rank_fragments_from length_fragments_from)
  from r 1 2 3 4 5 show ?thesis by (intro exI [of _ ?fs] conjI)
qed

theorem retrieve_bounded_sorted_truncated_witness:
  "(retrieve five_documents 4 ''contract'' 3 :: unit error + int RetrievedFragment list) =
     Inr [\<lparr>source_identifier = ''b.pdf'', rank = 1, excerpt = ''gamm'', relevance_score = 9\<rparr>,
          \<lparr>source_identifier = ''e.pdf'', rank = 2, excerpt = ''eta '', relevance_score = 9\<rparr>,
          \<lparr>source_identifier = ''a.pdf'', rank = 3, excerpt = ''alph'', relevance_score = 7\<rparr>] \<and>
   (\<exists>fs. (retrieve five_documents 4 ''contract'' 3 :: unit error + int RetrievedFragment list) = Inr fs \<and>
      length fs \<le> 3 \<and> sorted_wrt (\<lambda>a b. relevance_score b \<le> relevance_score a) fs)"
proof -
  have s: "five_documents ''contract'' 3 =
     Some [(''a.pdf'', ''alpha beta'', 7), (''b.pdf'', ''gamma'', 9), (''c.pdf'', ''delta epsilon'', 7),
           (''d.pdf'', ''zeta'', 3), (''e.pdf'', ''eta theta iota'', 9)]"
    by (simp add: five_documents_def)
  have e: "(retrieve five_documents 4 ''contract'' 3 :: unit error + int RetrievedFragment list) =
     Inr [\<lparr>source_identifier = ''b.pdf'', rank = 1, excerpt = ''gamm'', relevance_score = 9\<rparr>,
          \<lparr>source_identifier = ''e.pdf'', rank = 2, excerpt = ''eta '', relevance_score = 9\<rparr>,
          \<lparr>source_identifier = ''a.pdf'', rank = 3, excerpt = ''alph'', relevance_score = 7\<rparr>]"
    by (simp add: retrieve_def five_documents_def sort_by_score_def eval_nat_numeral)
  from retrieve_bounded_sorted_truncated [of five_documents "''contract''" 3 _ 4, OF s] obtain fs where
    "(retrieve five_documents 4 ''contract'' 3 :: unit error + int RetrievedFragment list) = Inr fs"
    "length fs \<le> 3" "sorted_wrt (\<lambda>a b. relevance_score b \<le> relevance_score a) fs"
    by blast
  then have "\<exists>fs. (retrieve five_documents 4 ''contract'' 3 :: unit error + int RetrievedFragment list) = Inr fs \<and>
      length fs \<le> 3 \<and> sorted_wrt (\<lambda>a b. relevance_score b \<le> relevance_score a) fs"
    by (intro exI [of _ fs] conjI)
  with e show ?thesis by (intro conjI)
qed

text \<open>
  C8. On the empty fragment sequence \<open>assemble\<close> returns the payload that says that no
  supporting documents were found, carrying the query; no other input gives this
  payload, so it cannot be taken for the payload of a query with fragments. On a
  non-empty sequence the payload lists source identifier and excerpt of every fragment.
  \<open>assemble\<close> is a function of its two arguments alone and has a payload for every
  input: it has no state, no collaborator and no error among its results.
\<close>

theorem assemble_empty_indicates_no_documents:
  "assemble query [] = NoSupportingDocuments query \<and>
   (\<forall>q fs. assemble q fs = assemble query [] \<longrightarrow> fs = [] \<and> q = query) \<and>
   (fs \<noteq> [] \<longrightarrow>
      assemble query fs = QueryWithSources query (map (\<lambda>f. (source_identifier f, excerpt f)) fs))"
proof (intro conjI allI impI)
  show "assemble query [] = NoSupportingDocuments query" by simp
next
  fix q fs
  assume "assemble q fs = assemble query []"
  then show "fs = []" by (cases fs) simp_all
next
  fix q fs
  assume "assemble q fs = assemble query []"
  then show "q = query" by (cases fs) simp_all
next
  assume "fs \<noteq> []"
  then show "assemble query fs = QueryWithSources query (map (\<lambda>f. (source_identifier f, excerpt f)) fs)"
    by (cases fs) simp_all
qed

theorem assemble_empty_indicates_no_documents_witness:
  "assemble ''what is a contract of sale'' ([] :: int RetrievedFragment list)
     = NoSupportingDocuments ''what is a contract of sale'' \<and>
   assemble ''what is a contract of sale''
     [\<lparr>source_identifier = ''b.pdf'', rank = 1, excerpt = ''gamm'', relevance_score = 9::int\<rparr>]
     = QueryWithSources ''what is a contract of sale'' [(''b.pdf'', ''gamm'')]"
proof -
  let ?f = "\<lparr>source_identifier = ''b.pdf'', rank = 1, excerpt = ''gamm'', relevance_score = 9::int\<rparr>"
  have n: "[?f] \<noteq> []" by simp
  note t = assemble_empty_indicates_no_documents [of "''what is a contract of sale''" "[?f]"]
  from t [THEN conjunct1] t [THEN conjunct2, THEN conjunct2, rule_format, OF n]
  show ?thesis by simp
qed

section \<open>Properties of the conversation loop\<close>













end
